theory Spec2Isabelle
  imports Main "HOL-Library.Word"
begin

section \<open>The consumer of go-rabbitmq (consume.go)\<close>

text \<open>
  The consumer talks to three things outside itself: the AMQP channel held by the channel
  manager, the logger, and the Go runtime (sleeping, starting goroutines, the lock of the
  channel manager). Every such effect is recorded, in program order, as an event of a
  trace. The broker behind the channel is a state machine that is a parameter of every
  function: it answers each call with an optional error and its next state, so that a
  statement proved for all brokers covers every way the calls can fail.
\<close>

subsection \<open>Data\<close>

text \<open>Go's \<open>time.Duration\<close> is a signed 64-bit count of nanoseconds.\<close>

type_synonym Duration = "64 word"

definition Second :: Duration where
  "Second = 1000000000"

text \<open>
  Modelled from the spec: the \<open>Table\<close> type of the argument tables and the helper
  \<open>tableToAMQPTable\<close> are declared outside consume.go. A table is an association list
  and the helper hands it to the channel unchanged.
\<close>

type_synonym Table = "(string \<times> string) list"

definition tableToAMQPTable :: "Table \<Rightarrow> Table" where
  "tableToAMQPTable t = t"

text \<open>
  Modelled from the spec: the structs \<open>ConsumeOptions\<close> and \<open>BindingExchangeOptions\<close>
  are declared outside consume.go. The fields are the ones \<open>startGoroutines\<close> and
  \<open>StartConsuming\<close> read; Go's \<open>int\<close> is \<open>int\<close> here (no arithmetic is done on
  these fields), and the pointer \<open>BindingExchange\<close> is an option, \<open>None\<close> for nil.
\<close>

record BindingExchangeOptions =
  Name :: string
  Kind :: string
  Durable :: bool
  AutoDelete :: bool
  Internal :: bool
  NoWait :: bool
  ExchangeArgs :: Table

record ConsumeOptions =
  QueueDurable :: bool
  QueueAutoDelete :: bool
  QueueExclusive :: bool
  QueueNoWait :: bool
  QueueArgs :: Table
  BindingExchange :: "BindingExchangeOptions option"
  BindingNoWait :: bool
  BindingArgs :: Table
  Concurrency :: int
  QOSPrefetch :: int
  QOSGlobal :: bool
  ConsumerName :: string
  ConsumerAutoAck :: bool
  ConsumerExclusive :: bool
  ConsumerNoWait :: bool
  ConsumerNoLocal :: bool
  ConsumerArgs :: Table

text \<open>The value of \<open>&ConsumeOptions{}\<close>: every field has Go's zero value.\<close>

definition zeroConsumeOptions :: ConsumeOptions where
  "zeroConsumeOptions =
     \<lparr>QueueDurable = False, QueueAutoDelete = False, QueueExclusive = False,
      QueueNoWait = False, QueueArgs = [], BindingExchange = None,
      BindingNoWait = False, BindingArgs = [], Concurrency = 0, QOSPrefetch = 0,
      QOSGlobal = False, ConsumerName = [], ConsumerAutoAck = False,
      ConsumerExclusive = False, ConsumerNoWait = False, ConsumerNoLocal = False,
      ConsumerArgs = []\<rparr>"

text \<open>A delivery, as far as the consumer looks at it: the tag that Ack and Nack send back.\<close>

record Delivery =
  DeliveryTag :: nat
  Body :: string

text \<open>
  Errors. \<open>Errorf\<close> is an error made by \<open>fmt.Errorf\<close> inside the consumer; \<open>Amqp\<close>
  wraps an error returned by a call on the channel.
\<close>

datatype amqp_error = Error int string

datatype error = Errorf string | Amqp amqp_error

text \<open>The calls the consumer makes on the channel, with their arguments in Go's order.\<close>

datatype call =
    QueueDeclare string bool bool bool bool Table
  | ExchangeDeclare string string bool bool bool bool Table
  | QueueBind string string string bool Table
  | Qos int int bool
  | Consume string string bool bool bool bool Table
  | Ack nat bool
  | Nack nat bool bool

datatype log_arg = ArgError error | ArgDuration Duration | ArgInt int

datatype event =
    RLock
  | RUnlock
  | Channel call
  | Printf string "log_arg list"
  | Sleep Duration
  | Go_worker
  | Go_supervisor
  | Handler Delivery

type_synonym 'b broker = "'b \<Rightarrow> call \<Rightarrow> amqp_error option \<times> 'b"

record 'b world =
  bstate :: 'b
  trace :: "event list"

definition emit :: "event \<Rightarrow> 'b world \<Rightarrow> 'b world" where
  "emit e s = s\<lparr>trace := trace s @ [e]\<rparr>"

text \<open>One call on the channel: the broker answers and moves on, the call is recorded.\<close>

definition channel :: "'b broker \<Rightarrow> call \<Rightarrow> 'b world \<Rightarrow> error option \<times> 'b world" where
  "channel br c s =
     (case br (bstate s) c of
        (r, b) \<Rightarrow> (map_option Amqp r, \<lparr>bstate = b, trace = trace s @ [Channel c]\<rparr>))"

subsection \<open>startGoroutines: the declare-and-start cycle\<close>

text \<open>The loop over the routing keys (lines 206 to 217): it returns at the first error.\<close>

fun bind_loop ::
  "'b broker \<Rightarrow> string \<Rightarrow> string \<Rightarrow> ConsumeOptions \<Rightarrow> string list \<Rightarrow> 'b world
     \<Rightarrow> error option \<times> 'b world" where
  "bind_loop br queue exchangeName consumeOptions [] s = (None, s)"
| "bind_loop br queue exchangeName consumeOptions (routingKey # rest) s =
     (case channel br
             (QueueBind queue routingKey exchangeName (BindingNoWait consumeOptions)
                (tableToAMQPTable (BindingArgs consumeOptions))) s of
        (Some err, s1) \<Rightarrow> (Some err, s1)
      | (None, s1) \<Rightarrow> bind_loop br queue exchangeName consumeOptions rest s1)"

text \<open>The loop \<open>for i := 0; i < consumeOptions.Concurrency; i++ { go func() ... }\<close>.\<close>

function spawn_loop :: "int \<Rightarrow> int \<Rightarrow> 'b world \<Rightarrow> 'b world" where
  "spawn_loop i n s = (if i < n then spawn_loop (i + 1) n (emit Go_worker s) else s)"
  by pat_completeness auto
termination
  by (relation "measure (\<lambda>(i, n, s). nat (n - i))") auto

declare spawn_loop.simps [simp del]

text \<open>
  The block \<open>if consumeOptions.BindingExchange != nil { ... }\<close> (lines 189 to 218):
  the check of the exchange's name, the declaration of the exchange and the bindings.
\<close>

definition binding_block ::
  "'b broker \<Rightarrow> string \<Rightarrow> string list \<Rightarrow> ConsumeOptions \<Rightarrow> 'b world
     \<Rightarrow> error option \<times> 'b world" where
  "binding_block br queue routingKeys consumeOptions s =
     (case BindingExchange consumeOptions of
        None \<Rightarrow> (None, s)
      | Some exchange \<Rightarrow>
          if Name exchange = []
          then (Some (Errorf ''binding to exchange but name not specified''), s)
          else
            (case channel br
                    (ExchangeDeclare (Name exchange) (Kind exchange) (Durable exchange)
                       (AutoDelete exchange) (Internal exchange) (NoWait exchange)
                       (tableToAMQPTable (ExchangeArgs exchange))) s of
               (Some err, s1) \<Rightarrow> (Some err, s1)
             | (None, s1) \<Rightarrow>
                 bind_loop br queue (Name exchange) consumeOptions routingKeys s1))"

text \<open>
  The body of \<open>startGoroutines\<close> between taking the read lock and the deferred unlock.
  The handler is only captured by the goroutines that are started.
\<close>

definition startGoroutines_body ::
  "'b broker \<Rightarrow> (Delivery \<Rightarrow> bool) \<Rightarrow> string \<Rightarrow> string list \<Rightarrow> ConsumeOptions
     \<Rightarrow> 'b world \<Rightarrow> error option \<times> 'b world" where
  "startGoroutines_body br handler queue routingKeys consumeOptions s =
     (case channel br
             (QueueDeclare queue (QueueDurable consumeOptions)
                (QueueAutoDelete consumeOptions) (QueueExclusive consumeOptions)
                (QueueNoWait consumeOptions)
                (tableToAMQPTable (QueueArgs consumeOptions))) s of
        (Some err, s1) \<Rightarrow> (Some err, s1)
      | (None, s1) \<Rightarrow>
     (case binding_block br queue routingKeys consumeOptions s1 of
        (Some err, s2) \<Rightarrow> (Some err, s2)
      | (None, s2) \<Rightarrow>
     (case channel br
             (Qos (QOSPrefetch consumeOptions) 0 (QOSGlobal consumeOptions)) s2 of
        (Some err, s3) \<Rightarrow> (Some err, s3)
      | (None, s3) \<Rightarrow>
     (case channel br
             (Consume queue (ConsumerName consumeOptions)
                (ConsumerAutoAck consumeOptions) (ConsumerExclusive consumeOptions)
                (ConsumerNoLocal consumeOptions) (ConsumerNoWait consumeOptions)
                (tableToAMQPTable (ConsumerArgs consumeOptions))) s3 of
        (Some err, s4) \<Rightarrow> (Some err, s4)
      | (None, s4) \<Rightarrow>
          (None,
           emit (Printf ''Processing messages on %v goroutines''
                   [ArgInt (Concurrency consumeOptions)])
             (spawn_loop 0 (Concurrency consumeOptions) s4))))))"

definition startGoroutines ::
  "'b broker \<Rightarrow> (Delivery \<Rightarrow> bool) \<Rightarrow> string \<Rightarrow> string list \<Rightarrow> ConsumeOptions
     \<Rightarrow> 'b world \<Rightarrow> error option \<times> 'b world" where
  "startGoroutines br handler queue routingKeys consumeOptions s =
     (case startGoroutines_body br handler queue routingKeys consumeOptions (emit RLock s) of
        (r, s1) \<Rightarrow> (r, emit RUnlock s1))"

subsection \<open>The worker goroutine (lines 243 to 262)\<close>

text \<open>
  \<open>msgs\<close> is the sequence of deliveries this worker receives from the delivery stream
  until the stream is closed; the stream hands each delivery to one worker. The handler is
  a function of the delivery, and each invocation is recorded. A worker has no result: an
  error of \<open>Ack\<close> or \<open>Nack\<close> can only be logged.
\<close>

fun worker_loop ::
  "'b broker \<Rightarrow> bool \<Rightarrow> (Delivery \<Rightarrow> bool) \<Rightarrow> Delivery list \<Rightarrow> 'b world \<Rightarrow> 'b world" where
  "worker_loop br autoAck handler [] s = s"
| "worker_loop br autoAck handler (msg # msgs) s =
     (let s1 = emit (Handler msg) s; ok = handler msg in
      if autoAck then worker_loop br autoAck handler msgs s1
      else if ok then
        (case channel br (Ack (DeliveryTag msg) False) s1 of
           (Some err, s2) \<Rightarrow>
             worker_loop br autoAck handler msgs
               (emit (Printf ''can't ack message: %v'' [ArgError err]) s2)
         | (None, s2) \<Rightarrow> worker_loop br autoAck handler msgs s2)
      else
        (case channel br (Nack (DeliveryTag msg) False True) s1 of
           (Some err, s2) \<Rightarrow>
             worker_loop br autoAck handler msgs
               (emit (Printf ''can't nack message: %v'' [ArgError err]) s2)
         | (None, s2) \<Rightarrow> worker_loop br autoAck handler msgs s2))"

definition worker ::
  "'b broker \<Rightarrow> ConsumeOptions \<Rightarrow> (Delivery \<Rightarrow> bool) \<Rightarrow> Delivery list \<Rightarrow> 'b world
     \<Rightarrow> 'b world" where
  "worker br consumeOptions handler msgs s =
     emit (Printf ''rabbit consumer goroutine closed'' [])
       (worker_loop br (ConsumerAutoAck consumeOptions) handler msgs s)"

subsection \<open>startGoroutinesWithRetries and StartConsuming\<close>

text \<open>
  The loop of \<open>startGoroutinesWithRetries\<close> has no bound: it is a partial function, and
  \<open>None\<close> is the run that never leaves the loop. \<open>backoffTime *= 2\<close> is a
  multiplication of 64-bit integers.
\<close>

partial_function (option) retry_loop ::
  "'b broker \<Rightarrow> (Delivery \<Rightarrow> bool) \<Rightarrow> string \<Rightarrow> string list \<Rightarrow> ConsumeOptions
     \<Rightarrow> Duration \<Rightarrow> 'b world \<Rightarrow> 'b world option" where
  "retry_loop br handler queue routingKeys consumeOptions backoffTime s =
     (case startGoroutines br handler queue routingKeys consumeOptions
             (emit (Sleep backoffTime)
                (emit (Printf ''waiting %s seconds to attempt to start consumer goroutines''
                         [ArgDuration backoffTime]) s)) of
        (Some err, s1) \<Rightarrow>
          retry_loop br handler queue routingKeys consumeOptions (backoffTime * 2)
            (emit (Printf ''couldn't start consumer goroutines. err: %v'' [ArgError err]) s1)
      | (None, s1) \<Rightarrow> Some s1)"

definition startGoroutinesWithRetries ::
  "'b broker \<Rightarrow> (Delivery \<Rightarrow> bool) \<Rightarrow> string \<Rightarrow> string list \<Rightarrow> ConsumeOptions
     \<Rightarrow> 'b world \<Rightarrow> 'b world option" where
  "startGoroutinesWithRetries br handler queue routingKeys consumeOptions s =
     retry_loop br handler queue routingKeys consumeOptions Second s"

text \<open>
  The supervisory goroutine started by \<open>StartConsuming\<close>: \<open>notes\<close> are the errors it
  receives from \<open>notifyCancelOrClose\<close>.
\<close>

fun supervisor ::
  "'b broker \<Rightarrow> (Delivery \<Rightarrow> bool) \<Rightarrow> string \<Rightarrow> string list \<Rightarrow> ConsumeOptions
     \<Rightarrow> error list \<Rightarrow> 'b world \<Rightarrow> 'b world option" where
  "supervisor br handler queue routingKeys options [] s = Some s"
| "supervisor br handler queue routingKeys options (err # notes) s =
     (case startGoroutinesWithRetries br handler queue routingKeys options
             (emit (Printf ''consume cancel/close handler triggered. err: %v''
                      [ArgError err]) s) of
        None \<Rightarrow> None
      | Some s1 \<Rightarrow> supervisor br handler queue routingKeys options notes s1)"

text \<open>
  \<open>StartConsuming\<close> first applies the option functions, in order, to the zero value.
\<close>

definition apply_options :: "(ConsumeOptions \<Rightarrow> ConsumeOptions) list \<Rightarrow> ConsumeOptions" where
  "apply_options optionFuncs =
     fold (\<lambda>optionFunc options. optionFunc options) optionFuncs zeroConsumeOptions"

text \<open>
  \<open>getDefaultConsumeOptions\<close> is declared outside consume.go: its result is the parameter
  \<open>defaultOptions\<close>, of which only the concurrency is read (lines 103 to 105).
\<close>

definition effective_options ::
  "ConsumeOptions \<Rightarrow> (ConsumeOptions \<Rightarrow> ConsumeOptions) list \<Rightarrow> ConsumeOptions" where
  "effective_options defaultOptions optionFuncs =
     (let options = apply_options optionFuncs
      in if Concurrency options < 1
         then options\<lparr>Concurrency := Concurrency defaultOptions\<rparr>
         else options)"

definition StartConsuming ::
  "'b broker \<Rightarrow> ConsumeOptions \<Rightarrow> (Delivery \<Rightarrow> bool) \<Rightarrow> string \<Rightarrow> string list
     \<Rightarrow> (ConsumeOptions \<Rightarrow> ConsumeOptions) list \<Rightarrow> 'b world \<Rightarrow> error option \<times> 'b world" where
  "StartConsuming br defaultOptions handler queue routingKeys optionFuncs s =
     (case startGoroutines br handler queue routingKeys
             (effective_options defaultOptions optionFuncs) s of
        (Some err, s1) \<Rightarrow> (Some err, s1)
      | (None, s1) \<Rightarrow> (None, emit Go_supervisor s1))"

subsection \<open>Observations on traces\<close>

text \<open>
  Projections of a trace, used to state what a run did. They are plain recursive
  functions or filters, so every statement about a concrete run can be evaluated.
\<close>

text \<open>The calls that declare an exchange or bind the queue to it.\<close>

fun is_binding_call :: "event \<Rightarrow> bool" where
  "is_binding_call (Channel (ExchangeDeclare n k d a i w t)) = True"
| "is_binding_call (Channel (QueueBind q k e w t)) = True"
| "is_binding_call _ = False"

text \<open>Names for the five calls of a cycle, with the arguments \<open>startGoroutines\<close> gives them.\<close>

abbreviation queueDeclare_call :: "string \<Rightarrow> ConsumeOptions \<Rightarrow> call" where
  "queueDeclare_call queue opts \<equiv>
     QueueDeclare queue (QueueDurable opts) (QueueAutoDelete opts) (QueueExclusive opts)
       (QueueNoWait opts) (tableToAMQPTable (QueueArgs opts))"

abbreviation exchangeDeclare_call :: "BindingExchangeOptions \<Rightarrow> call" where
  "exchangeDeclare_call ex \<equiv>
     ExchangeDeclare (Name ex) (Kind ex) (Durable ex) (AutoDelete ex) (Internal ex)
       (NoWait ex) (tableToAMQPTable (ExchangeArgs ex))"

abbreviation queueBind_call :: "string \<Rightarrow> BindingExchangeOptions \<Rightarrow> ConsumeOptions \<Rightarrow> string \<Rightarrow> call" where
  "queueBind_call queue ex opts routingKey \<equiv>
     QueueBind queue routingKey (Name ex) (BindingNoWait opts)
       (tableToAMQPTable (BindingArgs opts))"

abbreviation qos_call :: "ConsumeOptions \<Rightarrow> call" where
  "qos_call opts \<equiv> Qos (QOSPrefetch opts) 0 (QOSGlobal opts)"

abbreviation consume_call :: "string \<Rightarrow> ConsumeOptions \<Rightarrow> call" where
  "consume_call queue opts \<equiv>
     Consume queue (ConsumerName opts) (ConsumerAutoAck opts) (ConsumerExclusive opts)
       (ConsumerNoLocal opts) (ConsumerNoWait opts) (tableToAMQPTable (ConsumerArgs opts))"

text \<open>The events that are not calls on the channel: locking, logging, sleeping, goroutines.\<close>

fun is_channel :: "event \<Rightarrow> bool" where
  "is_channel (Channel c) = True"
| "is_channel _ = False"

abbreviation runtime_events :: "event list \<Rightarrow> event list" where
  "runtime_events tr \<equiv> filter (\<lambda>e. \<not> is_channel e) tr"

text \<open>
  The first two statements of an iteration of the retry loop: the log line and the sleep.
\<close>

abbreviation sleeping :: "Duration \<Rightarrow> 'b world \<Rightarrow> 'b world" where
  "sleeping backoffTime s \<equiv>
     emit (Sleep backoffTime)
       (emit (Printf ''waiting %s seconds to attempt to start consumer goroutines''
                [ArgDuration backoffTime]) s)"

text \<open>
  \<open>failures k b s\<close> unrolls the retry loop \<open>k\<close> times from backoff \<open>b\<close> and world
  \<open>s\<close>: it is \<open>Some\<close> of the world in which attempt \<open>k + 1\<close> begins when the first
  \<open>k\<close> attempts all fail, and \<open>None\<close> when one of them succeeds (the loop has left by
  then). It is the bounded companion of \<open>retry_loop\<close>, used to say which attempt is which.
\<close>

fun failures ::
  "'b broker \<Rightarrow> (Delivery \<Rightarrow> bool) \<Rightarrow> string \<Rightarrow> string list \<Rightarrow> ConsumeOptions
     \<Rightarrow> nat \<Rightarrow> Duration \<Rightarrow> 'b world \<Rightarrow> 'b world option" where
  "failures br h q ks opts 0 b s = Some s"
| "failures br h q ks opts (Suc k) b s =
     (case startGoroutines br h q ks opts (sleeping b s) of
        (Some err, s1) \<Rightarrow>
          failures br h q ks opts k (b * 2)
            (emit (Printf ''couldn't start consumer goroutines. err: %v'' [ArgError err]) s1)
      | (None, s1) \<Rightarrow> None)"

text \<open>The arguments of the calls of \<open>time.Sleep\<close>, in order.\<close>

fun sleeps :: "event list \<Rightarrow> Duration list" where
  "sleeps [] = []"
| "sleeps (Sleep d # es) = d # sleeps es"
| "sleeps (e # es) = sleeps es"

text \<open>The Ack and Nack calls that carry a given delivery tag.\<close>

fun settles :: "nat \<Rightarrow> event \<Rightarrow> bool" where
  "settles t (Channel (Ack tag multiple)) = (tag = t)"
| "settles t (Channel (Nack tag multiple requeue)) = (tag = t)"
| "settles t e = False"

text \<open>The Ack and Nack calls, whatever their tag.\<close>

fun is_settle :: "event \<Rightarrow> bool" where
  "is_settle (Channel (Ack tag multiple)) = True"
| "is_settle (Channel (Nack tag multiple requeue)) = True"
| "is_settle e = False"


text \<open>
  What the specification expects for one delivery when auto-ack is off: a non-multiple Ack
  when the handler accepts, a non-multiple Nack with requeue otherwise.
\<close>

definition expected_disposition :: "(Delivery \<Rightarrow> bool) \<Rightarrow> Delivery \<Rightarrow> call" where
  "expected_disposition handler d =
     (if handler d then Ack (DeliveryTag d) False else Nack (DeliveryTag d) False True)"


text \<open>The log lines of the retry loop that report a failed cycle.\<close>

fun is_retry_log :: "event \<Rightarrow> bool" where
  "is_retry_log (Printf f args) = (f = ''couldn't start consumer goroutines. err: %v'')"
| "is_retry_log e = False"

text \<open>The log line the supervisor writes when a loss notification arrives.\<close>

abbreviation notified :: "error \<Rightarrow> 'b world \<Rightarrow> 'b world" where
  "notified err s \<equiv>
     emit (Printf ''consume cancel/close handler triggered. err: %v'' [ArgError err]) s"

subsection \<open>Sample inputs\<close>

text \<open>
  Concrete handlers, brokers, options and deliveries at which the theorems below are
  instantiated. The state of each sample broker is a counter.
\<close>

definition accept_all :: "Delivery \<Rightarrow> bool" where
  "accept_all d = True"

definition accept_even :: "Delivery \<Rightarrow> bool" where
  "accept_even d = even (DeliveryTag d)"

definition delivery :: "nat \<Rightarrow> Delivery" where
  "delivery n = \<lparr>DeliveryTag = n, Body = []\<rparr>"

text \<open>A broker that accepts every call.\<close>

definition obliging_broker :: "nat broker" where
  "obliging_broker n c = (None, Suc n)"

text \<open>A closed channel: every call fails.\<close>

definition closed_broker :: "nat broker" where
  "closed_broker n c = (Some (Error 504 ''channel/connection is not open''), Suc n)"


definition start :: "nat world" where
  "start = \<lparr>bstate = 0, trace = []\<rparr>"

definition unnamed_exchange :: BindingExchangeOptions where
  "unnamed_exchange =
     \<lparr>Name = [], Kind = ''topic'', Durable = True, AutoDelete = False, Internal = False,
      NoWait = False, ExchangeArgs = []\<rparr>"

definition events_exchange :: BindingExchangeOptions where
  "events_exchange =
     \<lparr>Name = ''events'', Kind = ''topic'', Durable = True, AutoDelete = False,
      Internal = False, NoWait = False, ExchangeArgs = []\<rparr>"

definition with_exchange :: "BindingExchangeOptions \<Rightarrow> ConsumeOptions \<Rightarrow> ConsumeOptions" where
  "with_exchange ex options = options\<lparr>BindingExchange := Some ex\<rparr>"

definition with_concurrency :: "int \<Rightarrow> ConsumeOptions \<Rightarrow> ConsumeOptions" where
  "with_concurrency n options = options\<lparr>Concurrency := n\<rparr>"

definition with_auto_ack :: "ConsumeOptions \<Rightarrow> ConsumeOptions" where
  "with_auto_ack options = options\<lparr>ConsumerAutoAck := True\<rparr>"

text \<open>A sample result of \<open>getDefaultConsumeOptions\<close>, with concurrency 1.\<close>

definition sample_defaults :: ConsumeOptions where
  "sample_defaults = zeroConsumeOptions\<lparr>Concurrency := 1\<rparr>"

text \<open>
  A broker with an outage: it accepts the first queue declaration, refuses the second and
  the third, and accepts everything else; its state counts the queue declarations.
\<close>

definition outage_broker :: "nat broker" where
  "outage_broker n c =
     (case c of
        QueueDeclare q d a e w t \<Rightarrow>
          (if 1 \<le> n \<and> n < 3 then Some (Error 504 ''channel/connection is not open'')
           else None, Suc n)
      | _ \<Rightarrow> (None, n))"


text \<open>A loss notification.\<close>

definition forced :: error where
  "forced = Amqp (Error 320 ''CONNECTION_FORCED'')"

text \<open>
  The events of one failed attempt of the retry loop on the queue \<open>jobs\<close>, and of one
  successful cycle without a binding descriptor that starts \<open>n\<close> workers.
\<close>

definition failed_attempt :: "Duration \<Rightarrow> event list" where
  "failed_attempt d =
     [Printf ''waiting %s seconds to attempt to start consumer goroutines'' [ArgDuration d],
      Sleep d, RLock, Channel (QueueDeclare ''jobs'' False False False False []), RUnlock,
      Printf ''couldn't start consumer goroutines. err: %v''
        [ArgError (Amqp (Error 504 ''channel/connection is not open''))]]"

definition good_cycle :: "int \<Rightarrow> event list" where
  "good_cycle n =
     [RLock, Channel (QueueDeclare ''jobs'' False False False False []),
      Channel (Qos 0 0 False), Channel (Consume ''jobs'' [] False False False False [])] @
     replicate (nat n) Go_worker @
     [Printf ''Processing messages on %v goroutines'' [ArgInt n], RUnlock]"

text \<open>The world after a successful \<open>StartConsuming\<close> with one worker.\<close>

definition running :: "nat world" where
  "running = \<lparr>bstate = 1, trace = good_cycle 1 @ [Go_supervisor]\<rparr>"

section \<open>Properties\<close>

subsection \<open>Single steps\<close>

lemma trace_emit [simp]: "trace (emit e s) = trace s @ [e]"
  by (simp add: emit_def)

lemma bstate_emit [simp]: "bstate (emit e s) = bstate s"
  by (simp add: emit_def)

lemma channel_eq:
  "channel br c s =
     (map_option Amqp (fst (br (bstate s) c)),
      \<lparr>bstate = snd (br (bstate s) c), trace = trace s @ [Channel c]\<rparr>)"
  by (simp add: channel_def split: prod.splits)

lemma trace_channel [simp]: "trace (snd (channel br c s)) = trace s @ [Channel c]"
  by (simp add: channel_eq)

lemma bstate_channel [simp]: "bstate (snd (channel br c s)) = snd (br (bstate s) c)"
  by (simp add: channel_eq)

lemma fst_channel [simp]: "fst (channel br c s) = map_option Amqp (fst (br (bstate s) c))"
  by (simp add: channel_eq)

lemma channel_never_Errorf: "fst (channel br c s) \<noteq> Some (Errorf m)"
  by (auto simp: channel_eq)

lemma spawn_loop_trace:
  "trace (spawn_loop i n s) = trace s @ replicate (nat (n - i)) Go_worker"
proof (induction i n s rule: spawn_loop.induct)
  case (1 i n s)
  show ?case
  proof (cases "i < n")
    case True
    then have "nat (n - i) = Suc (nat (n - (i + 1)))" by simp
    with True 1 show ?thesis
      by (subst spawn_loop.simps) (simp add: replicate_append_same)
  next
    case False
    then show ?thesis by (subst spawn_loop.simps) simp
  qed
qed

lemma spawn_loop_bstate: "bstate (spawn_loop i n s) = bstate s"
proof (induction i n s rule: spawn_loop.induct)
  case (1 i n s)
  then show ?case by (subst spawn_loop.simps) simp
qed

lemma bind_loop_ok:
  "bind_loop br q ex opts ks s = (None, s') \<Longrightarrow>
     trace s' = trace s @
       map (\<lambda>k. Channel (QueueBind q k ex (BindingNoWait opts)
                            (tableToAMQPTable (BindingArgs opts)))) ks"
proof (induction ks arbitrary: s)
  case Nil
  then show ?case by simp
next
  case (Cons k ks)
  obtain r s1 where c: "channel br (QueueBind q k ex (BindingNoWait opts)
                            (tableToAMQPTable (BindingArgs opts))) s = (r, s1)"
    by (cases "channel br (QueueBind q k ex (BindingNoWait opts)
                            (tableToAMQPTable (BindingArgs opts))) s")
  with Cons.prems have r: "r = None" and rest: "bind_loop br q ex opts ks s1 = (None, s')"
    by (auto split: option.splits)
  have "trace s1 = trace s @ [Channel (QueueBind q k ex (BindingNoWait opts)
                            (tableToAMQPTable (BindingArgs opts)))]"
    using trace_channel [of br _ s] c by (metis snd_conv)
  with Cons.IH [OF rest] show ?case by simp
qed

subsection \<open>The declare-and-start cycle\<close>

lemma channel_runtime:
  "channel br c s = (r, s') \<Longrightarrow> runtime_events (trace s') = runtime_events (trace s)"
  by (auto simp: channel_eq)

lemma channel_result:
  assumes "channel br c s = (r, s')"
  shows "trace s' = trace s @ [Channel c]" and "bstate s' = snd (br (bstate s) c)"
    and "r = map_option Amqp (fst (br (bstate s) c))"
  using assms by (auto simp: channel_eq)

lemma bind_loop_runtime:
  "bind_loop br q ex opts ks s = (r, s') \<Longrightarrow> runtime_events (trace s') = runtime_events (trace s)"
proof (induction ks arbitrary: s)
  case Nil
  then show ?case by simp
next
  case (Cons k ks)
  then show ?case
    by (auto simp: channel_eq split: option.splits prod.splits)
qed

lemma binding_block_runtime:
  "binding_block br q ks opts s = (r, s') \<Longrightarrow>
     runtime_events (trace s') = runtime_events (trace s)"
  by (auto simp: binding_block_def channel_eq dest: bind_loop_runtime
      split: option.splits prod.splits if_splits)

lemma binding_block_None:
  "BindingExchange opts = None \<Longrightarrow> binding_block br q ks opts s = (None, s)"
  by (simp add: binding_block_def)

lemma binding_block_empty_name:
  "BindingExchange opts = Some ex \<Longrightarrow> Name ex = [] \<Longrightarrow>
     binding_block br q ks opts s =
       (Some (Errorf ''binding to exchange but name not specified''), s)"
  by (simp add: binding_block_def)

lemma binding_block_ok:
  assumes "binding_block br q ks opts s = (None, s')" and "BindingExchange opts = Some ex"
  shows "Name ex \<noteq> [] \<and>
     trace s' = trace s @ Channel (exchangeDeclare_call ex) #
       map (\<lambda>k. Channel (queueBind_call q ex opts k)) ks"
proof -
  from assms have ne: "Name ex \<noteq> []"
    by (auto simp: binding_block_def)
  with assms obtain s1 where
    1: "channel br (exchangeDeclare_call ex) s = (None, s1)" and
    2: "bind_loop br q (Name ex) opts ks s1 = (None, s')"
    by (auto simp: binding_block_def split: prod.splits option.splits)
  from channel_result(1) [OF 1] bind_loop_ok [OF 2] ne show ?thesis by simp
qed

lemma body_runtime:
  "runtime_events (trace (snd (startGoroutines_body br h q ks opts s))) =
     runtime_events (trace s) @
       (if fst (startGoroutines_body br h q ks opts s) = None
        then replicate (nat (Concurrency opts)) Go_worker @
             [Printf ''Processing messages on %v goroutines'' [ArgInt (Concurrency opts)]]
        else [])"
  by (auto simp: startGoroutines_body_def emit_def spawn_loop_trace
      dest!: binding_block_runtime channel_runtime split: option.splits prod.splits)

lemma startGoroutines_runtime:
  "runtime_events (trace (snd (startGoroutines br h q ks opts s))) =
     runtime_events (trace s) @ [RLock] @
       (if fst (startGoroutines br h q ks opts s) = None
        then replicate (nat (Concurrency opts)) Go_worker @
             [Printf ''Processing messages on %v goroutines'' [ArgInt (Concurrency opts)]]
        else []) @ [RUnlock]"
proof -
  obtain r s1 where b: "startGoroutines_body br h q ks opts (emit RLock s) = (r, s1)"
    by (cases "startGoroutines_body br h q ks opts (emit RLock s)")
  with body_runtime [of br h q ks opts "emit RLock s"] show ?thesis
    by (simp add: startGoroutines_def)
qed

lemma startGoroutines_empty_name:
  assumes "BindingExchange opts = Some ex" and "Name ex = []"
  shows "startGoroutines br h q ks opts s =
     ((case fst (br (bstate s) (queueDeclare_call q opts)) of
         Some e \<Rightarrow> Some (Amqp e)
       | None \<Rightarrow> Some (Errorf ''binding to exchange but name not specified'')),
      \<lparr>bstate = snd (br (bstate s) (queueDeclare_call q opts)),
       trace = trace s @ [RLock, Channel (queueDeclare_call q opts), RUnlock]\<rparr>)"
proof (cases "fst (br (bstate s) (queueDeclare_call q opts))")
  case None
  with assms show ?thesis
    by (simp add: startGoroutines_def startGoroutines_body_def channel_eq emit_def
        binding_block_empty_name)
next
  case (Some e)
  with assms show ?thesis
    by (simp add: startGoroutines_def startGoroutines_body_def channel_eq emit_def)
qed

lemma startGoroutines_no_binding:
  assumes "BindingExchange opts = None"
  shows "startGoroutines br h q ks opts s = startGoroutines br h q [] opts s"
  using assms
  by (simp add: startGoroutines_def startGoroutines_body_def binding_block_None
      cong: option.case_cong prod.case_cong)

lemma body_no_binding:
  assumes "BindingExchange opts = None"
  shows "filter is_binding_call (trace (snd (startGoroutines_body br h q ks opts s))) =
     filter is_binding_call (trace s)"
  using assms
  by (auto simp: startGoroutines_body_def channel_eq emit_def spawn_loop_trace
      binding_block_None split: option.splits)

lemma body_ok_binding:
  assumes "startGoroutines_body br h q ks opts s = (None, s')"
    and "BindingExchange opts = Some ex"
  shows "Name ex \<noteq> [] \<and>
     trace s' = trace s @
       [Channel (queueDeclare_call q opts), Channel (exchangeDeclare_call ex)] @
       map (\<lambda>k. Channel (queueBind_call q ex opts k)) ks @
       [Channel (qos_call opts), Channel (consume_call q opts)] @
       replicate (nat (Concurrency opts)) Go_worker @
       [Printf ''Processing messages on %v goroutines'' [ArgInt (Concurrency opts)]]"
proof -
  from assms(1) obtain s1 s2 s3 s4 where
    1: "channel br (queueDeclare_call q opts) s = (None, s1)" and
    2: "binding_block br q ks opts s1 = (None, s2)" and
    3: "channel br (qos_call opts) s2 = (None, s3)" and
    4: "channel br (consume_call q opts) s3 = (None, s4)" and
    5: "s' = emit (Printf ''Processing messages on %v goroutines'' [ArgInt (Concurrency opts)])
              (spawn_loop 0 (Concurrency opts) s4)"
    by (auto simp: startGoroutines_body_def split: prod.splits option.splits)
  from binding_block_ok [OF 2 assms(2)] channel_result(1) [OF 1] channel_result(1) [OF 3]
    channel_result(1) [OF 4]
  show ?thesis
    by (simp add: 5 spawn_loop_trace)
qed

subsection \<open>The retry loop and its bounded unrolling\<close>

text \<open>
  The loop leaves at the first successful cycle: when the first \<open>k\<close> attempts fail and
  attempt \<open>k + 1\<close>, made after sleeping \<open>b * 2 ^ k\<close>, succeeds, the loop returns the world
  of that attempt. Conversely every returning run has this form.
\<close>

lemma retry_loop_exit:
  "failures br h q ks opts k b s = Some sk \<Longrightarrow>
   startGoroutines br h q ks opts (sleeping (b * 2 ^ k) sk) = (None, s') \<Longrightarrow>
   retry_loop br h q ks opts b s = Some s'"
proof (induction k arbitrary: b s)
  case 0
  then show ?case by (subst retry_loop.simps) simp
next
  case (Suc k)
  from Suc.prems(1) obtain err s1 where
    c: "startGoroutines br h q ks opts (sleeping b s) = (Some err, s1)" and
    f: "failures br h q ks opts k (b * 2)
          (emit (Printf ''couldn't start consumer goroutines. err: %v'' [ArgError err]) s1) = Some sk"
    by (auto split: prod.splits option.splits)
  from Suc.prems(2) have "startGoroutines br h q ks opts (sleeping (b * 2 * 2 ^ k) sk) = (None, s')"
    by (simp add: mult.assoc)
  from Suc.IH [OF f this] c show ?case
    by (subst retry_loop.simps) simp
qed

lemma retry_loop_Some:
  assumes "retry_loop br h q ks opts b s = Some s'"
  shows "\<exists>k sk. failures br h q ks opts k b s = Some sk \<and>
       startGoroutines br h q ks opts (sleeping (b * 2 ^ k) sk) = (None, s')"
  using assms
proof (induction rule: retry_loop.raw_induct [rotated 1, consumes 1])
  case (1 retry br h q ks opts b s s')
  obtain r s1 where c: "startGoroutines br h q ks opts (sleeping b s) = (r, s1)"
    by (cases "startGoroutines br h q ks opts (sleeping b s)")
  show ?case
  proof (cases r)
    case None
    with c 1(2) have "s1 = s'" by simp
    with c None have "failures br h q ks opts 0 b s = Some s \<and>
       startGoroutines br h q ks opts (sleeping (b * 2 ^ 0) s) = (None, s')" by simp
    then show ?thesis by blast
  next
    case (Some err)
    with c 1(2) have "retry br h q ks opts (b * 2)
      (emit (Printf ''couldn't start consumer goroutines. err: %v'' [ArgError err]) s1) = Some s'"
      by simp
    from 1(1) [OF this] obtain k sk where
      "failures br h q ks opts k (b * 2)
         (emit (Printf ''couldn't start consumer goroutines. err: %v'' [ArgError err]) s1) = Some sk"
      "startGoroutines br h q ks opts (sleeping (b * 2 * 2 ^ k) sk) = (None, s')"
      by blast
    with c Some have "failures br h q ks opts (Suc k) b s = Some sk \<and>
       startGoroutines br h q ks opts (sleeping (b * 2 ^ Suc k) sk) = (None, s')"
      by (simp add: mult.assoc)
    then show ?thesis by blast
  qed
qed

lemma sleeps_append [simp]: "sleeps (xs @ ys) = sleeps xs @ sleeps ys"
  by (induction xs rule: sleeps.induct) simp_all

lemma sleeps_runtime: "sleeps (runtime_events tr) = sleeps tr"
  by (induction tr rule: sleeps.induct) simp_all

lemma sleeps_replicate_worker [simp]: "sleeps (replicate n Go_worker) = []"
  by (induction n) simp_all

lemma startGoroutines_sleeps:
  "sleeps (trace (snd (startGoroutines br h q ks opts s))) = sleeps (trace s)"
proof -
  have "sleeps (runtime_events (trace (snd (startGoroutines br h q ks opts s)))) =
        sleeps (runtime_events (trace s))"
    by (simp add: startGoroutines_runtime)
  then show ?thesis by (simp add: sleeps_runtime)
qed

lemma failures_sleeps:
  "failures br h q ks opts k b s = Some sk \<Longrightarrow>
     sleeps (trace sk) = sleeps (trace s) @ map (\<lambda>j. b * 2 ^ j) [0..<k]"
proof (induction k arbitrary: b s)
  case 0
  then show ?case by simp
next
  case (Suc k)
  from Suc.prems obtain err s1 where
    c: "startGoroutines br h q ks opts (sleeping b s) = (Some err, s1)" and
    f: "failures br h q ks opts k (b * 2)
          (emit (Printf ''couldn't start consumer goroutines. err: %v'' [ArgError err]) s1) = Some sk"
    by (auto split: prod.splits option.splits)
  have "sleeps (trace s1) = sleeps (trace s) @ [b]"
    using startGoroutines_sleeps [of br h q ks opts "sleeping b s"] c by simp
  with Suc.IH [OF f] have "sleeps (trace sk) =
      sleeps (trace s) @ b # map (\<lambda>j. b * 2 * 2 ^ j) [0..<k]"
    by simp
  also have "b # map (\<lambda>j. b * 2 * 2 ^ j) [0..<k] = map (\<lambda>j. b * 2 ^ j) [0..<Suc k]"
    by (simp add: upt_rec [of 0 "Suc k"] map_Suc_upt [symmetric] mult.assoc del: upt_Suc)
  finally show ?case .
qed


subsection \<open>The worker\<close>

lemma worker_loop_settles:
  "filter (settles t) (trace (worker_loop br False h msgs s)) =
     filter (settles t) (trace s) @
       map (\<lambda>d. Channel (expected_disposition h d)) (filter (\<lambda>d. DeliveryTag d = t) msgs)"
proof (induction msgs arbitrary: s)
  case Nil
  then show ?case by simp
next
  case (Cons d ds)
  show ?case
    by (cases "h d"; cases "fst (br (bstate (emit (Handler d) s)) (expected_disposition h d))")
       (simp_all add: channel_eq Cons.IH expected_disposition_def)
qed

lemma worker_loop_dispositions:
  "filter is_settle (trace (worker_loop br False h msgs s)) =
     filter is_settle (trace s) @ map (\<lambda>d. Channel (expected_disposition h d)) msgs"
proof (induction msgs arbitrary: s)
  case Nil
  then show ?case by simp
next
  case (Cons d ds)
  show ?case
    by (cases "h d"; cases "fst (br (bstate (emit (Handler d) s)) (expected_disposition h d))")
       (simp_all add: channel_eq Cons.IH expected_disposition_def)
qed


lemma worker_loop_auto_ack:
  "worker_loop br True h msgs s = s\<lparr>trace := trace s @ map Handler msgs\<rparr>"
proof (induction msgs arbitrary: s)
  case Nil
  then show ?case by simp
next
  case (Cons d ds)
  then show ?case by (simp add: emit_def)
qed

lemma filter_distinct_key:
  "distinct (map f xs) \<Longrightarrow> x \<in> set xs \<Longrightarrow> filter (\<lambda>y. f y = f x) xs = [x]"
proof (induction xs)
  case Nil
  then show ?case by simp
next
  case (Cons a xs)
  show ?case
  proof (cases "a = x")
    case True
    with Cons.prems have "filter (\<lambda>y. f y = f x) xs = []"
      by (force simp: filter_empty_conv image_iff)
    with True show ?thesis by simp
  next
    case False
    with Cons.prems have "f a \<noteq> f x" by auto
    with Cons False show ?thesis by simp
  qed
qed

subsection \<open>The cycle seen from StartConsuming\<close>

lemmas sample_defs =
  accept_all_def accept_even_def delivery_def obliging_broker_def closed_broker_def
  start_def unnamed_exchange_def events_exchange_def with_exchange_def with_concurrency_def
  with_auto_ack_def sample_defaults_def zeroConsumeOptions_def apply_options_def
  effective_options_def tableToAMQPTable_def

lemmas run_defs =
  StartConsuming_def startGoroutines_def startGoroutines_body_def binding_block_def
  channel_def emit_def worker_def spawn_loop.simps

lemma count_list_filter: "count_list (filter P xs) x = (if P x then count_list xs x else 0)"
  by (induction xs) auto

lemma count_list_replicate: "count_list (replicate n x) y = (if x = y then n else 0)"
  by (induction n) auto

lemma count_runtime:
  "\<not> is_channel e \<Longrightarrow> count_list (runtime_events tr) e = count_list tr e"
  by (simp add: count_list_filter)

lemma startGoroutines_workers:
  "count_list (trace (snd (startGoroutines br h q ks opts s))) Go_worker =
     count_list (trace s) Go_worker +
       (if fst (startGoroutines br h q ks opts s) = None then nat (Concurrency opts) else 0)"
proof -
  have "count_list (runtime_events (trace (snd (startGoroutines br h q ks opts s)))) Go_worker =
     count_list (runtime_events (trace s)) Go_worker +
       (if fst (startGoroutines br h q ks opts s) = None then nat (Concurrency opts) else 0)"
    by (simp add: startGoroutines_runtime count_list_replicate)
  then show ?thesis by (simp add: count_runtime)
qed

lemma startGoroutines_supervisors:
  "count_list (trace (snd (startGoroutines br h q ks opts s))) Go_supervisor =
     count_list (trace s) Go_supervisor"
proof -
  have "count_list (runtime_events (trace (snd (startGoroutines br h q ks opts s)))) Go_supervisor =
     count_list (runtime_events (trace s)) Go_supervisor"
    by (simp add: startGoroutines_runtime count_list_replicate)
  then show ?thesis by (simp add: count_runtime)
qed

lemma StartConsuming_eq:
  "StartConsuming br d h q ks fs s =
     (fst (startGoroutines br h q ks (effective_options d fs) s),
      (if fst (startGoroutines br h q ks (effective_options d fs) s) = None
       then emit Go_supervisor (snd (startGoroutines br h q ks (effective_options d fs) s))
       else snd (startGoroutines br h q ks (effective_options d fs) s)))"
  by (simp add: StartConsuming_def split: prod.splits option.splits)

lemma startGoroutines_ok_binding:
  assumes "startGoroutines br h q ks opts s = (None, s')"
    and "BindingExchange opts = Some ex"
  shows "trace s' = trace s @
       [RLock, Channel (queueDeclare_call q opts), Channel (exchangeDeclare_call ex)] @
       map (\<lambda>k. Channel (queueBind_call q ex opts k)) ks @
       [Channel (qos_call opts), Channel (consume_call q opts)] @
       replicate (nat (Concurrency opts)) Go_worker @
       [Printf ''Processing messages on %v goroutines'' [ArgInt (Concurrency opts)], RUnlock]"
proof -
  from assms(1) obtain s1 where
    b: "startGoroutines_body br h q ks opts (emit RLock s) = (None, s1)" and
    s': "s' = emit RUnlock s1"
    by (auto simp: startGoroutines_def split: prod.splits)
  from body_ok_binding [OF b assms(2)] show ?thesis
    by (simp add: s')
qed

lemma startGoroutines_binding_calls:
  assumes "BindingExchange opts = None"
  shows "filter is_binding_call (trace (snd (startGoroutines br h q ks opts s))) =
     filter is_binding_call (trace s)"
proof -
  obtain r s1 where b: "startGoroutines_body br h q ks opts (emit RLock s) = (r, s1)"
    by (cases "startGoroutines_body br h q ks opts (emit RLock s)")
  with body_no_binding [OF assms, of br h q ks "emit RLock s"] show ?thesis
    by (simp add: startGoroutines_def)
qed

lemma effective_options_binding [simp]:
  "BindingExchange (effective_options d fs) = BindingExchange (apply_options fs)"
  by (simp add: effective_options_def Let_def)

subsection \<open>The backoff\<close>



lemma retry_loop_sleeps:
  assumes "retry_loop br h q ks opts b s = Some s'"
  shows "\<exists>n. sleeps (trace s') = sleeps (trace s) @ map (\<lambda>j. b * 2 ^ j) [0..<Suc n]"
proof -
  from retry_loop_Some [OF assms] obtain k sk where
    f: "failures br h q ks opts k b s = Some sk" and
    c: "startGoroutines br h q ks opts (sleeping (b * 2 ^ k) sk) = (None, s')"
    by blast
  have "sleeps (trace s') = sleeps (trace (sleeping (b * 2 ^ k) sk))"
    using startGoroutines_sleeps [of br h q ks opts "sleeping (b * 2 ^ k) sk"] c by simp
  with failures_sleeps [OF f] have
    "sleeps (trace s') = sleeps (trace s) @ map (\<lambda>j. b * 2 ^ j) [0..<Suc k]"
    by simp
  then show ?thesis ..
qed




subsection \<open>The supervisor\<close>

lemma retry_logs_runtime:
  "filter is_retry_log (runtime_events tr) = filter is_retry_log tr"
proof -
  have "(\<lambda>e. \<not> is_channel e \<and> is_retry_log e) = is_retry_log"
  proof
    fix e
    show "(\<not> is_channel e \<and> is_retry_log e) = is_retry_log e"
      by (cases e) simp_all
  qed
  then show ?thesis by simp
qed

lemma startGoroutines_retry_logs:
  "filter is_retry_log (trace (snd (startGoroutines br h q ks opts s))) =
     filter is_retry_log (trace s)"
proof -
  have "filter is_retry_log (runtime_events (trace (snd (startGoroutines br h q ks opts s)))) =
        filter is_retry_log (runtime_events (trace s))"
    by (simp add: startGoroutines_runtime del: filter_filter)
  then show ?thesis by (simp only: retry_logs_runtime)
qed

lemma failures_retry_logs:
  "failures br h q ks opts k b s = Some sk \<Longrightarrow>
     length (filter is_retry_log (trace sk)) = length (filter is_retry_log (trace s)) + k"
proof (induction k arbitrary: b s)
  case 0
  then show ?case by simp
next
  case (Suc k)
  from Suc.prems obtain err s1 where
    c: "startGoroutines br h q ks opts (sleeping b s) = (Some err, s1)" and
    f: "failures br h q ks opts k (b * 2)
          (emit (Printf ''couldn't start consumer goroutines. err: %v'' [ArgError err]) s1) = Some sk"
    by (auto split: prod.splits option.splits)
  have "filter is_retry_log (trace s1) = filter is_retry_log (trace s)"
    using startGoroutines_retry_logs [of br h q ks opts "sleeping b s"] c by simp
  with Suc.IH [OF f] show ?case by simp
qed

text \<open>
  A notification whose recovery fails \<open>k\<close> times and then succeeds: the supervisor
  takes the world of the successful cycle on to the next notification.
\<close>

lemma supervisor_absorbs:
  assumes "failures br h q ks opts k Second (notified err s1) = Some sk"
    and "startGoroutines br h q ks opts (sleeping (Second * 2 ^ k) sk) = (None, s2)"
  shows "startGoroutinesWithRetries br h q ks opts (notified err s1) = Some s2"
    and "supervisor br h q ks opts (err # notes) s1 = supervisor br h q ks opts notes s2"
proof -
  from retry_loop_exit [OF assms] show
    r: "startGoroutinesWithRetries br h q ks opts (notified err s1) = Some s2"
    by (simp add: startGoroutinesWithRetries_def)
  then show "supervisor br h q ks opts (err # notes) s1 = supervisor br h q ks opts notes s2"
    by simp
qed



section \<open>The claims\<close>

subsection \<open>C1: one Ack or one Nack for each delivery\<close>

text \<open>
  Claim C1. With auto-ack off, a worker settles every delivery it processes exactly once.
  The Ack and Nack calls of a worker are, in the order of its stream, one call for each
  delivery: \<open>Ack\<close> with multiple = false when the handler returns true on it, \<open>Nack\<close>
  with multiple = false and requeue = true when the handler returns false. Delivery tags
  are unique on a channel; for such a stream the calls that carry the tag of a delivery
  \<open>d\<close> are that one call, so no delivery is both acknowledged and rejected.
\<close>

theorem worker_settles_each_delivery_once:
  assumes "\<not> ConsumerAutoAck opts"
  shows "filter is_settle (trace (worker br opts h msgs s)) =
       filter is_settle (trace s) @
         map (\<lambda>m. Channel (if h m then Ack (DeliveryTag m) False
                            else Nack (DeliveryTag m) False True)) msgs
     \<and> (distinct (map DeliveryTag msgs) \<and> d \<in> set msgs \<longrightarrow>
          filter (settles (DeliveryTag d)) (trace (worker br opts h msgs s)) =
            filter (settles (DeliveryTag d)) (trace s) @
              [Channel (if h d then Ack (DeliveryTag d) False
                        else Nack (DeliveryTag d) False True)])"
proof -
  have "filter (settles (DeliveryTag d)) (trace (worker br opts h msgs s)) =
      filter (settles (DeliveryTag d)) (trace s) @
        [Channel (if h d then Ack (DeliveryTag d) False else Nack (DeliveryTag d) False True)]"
    if "distinct (map DeliveryTag msgs)" and "d \<in> set msgs"
  proof -
    have "filter (\<lambda>y. DeliveryTag y = DeliveryTag d) msgs = [d]"
      using that by (rule filter_distinct_key)
    with assms show ?thesis
      by (simp add: worker_def worker_loop_settles expected_disposition_def)
  qed
  moreover have "filter is_settle (trace (worker br opts h msgs s)) =
       filter is_settle (trace s) @
         map (\<lambda>m. Channel (if h m then Ack (DeliveryTag m) False
                            else Nack (DeliveryTag m) False True)) msgs"
    using assms
    by (simp add: worker_def worker_loop_dispositions expected_disposition_def)
  ultimately show ?thesis by blast
qed

text \<open>
  Two deliveries and a handler that accepts even tags: delivery 1 gets one Nack with
  requeue, delivery 2 one Ack.
\<close>

theorem worker_settles_each_delivery_once_witness:
  "\<not> ConsumerAutoAck zeroConsumeOptions
   \<and> distinct (map DeliveryTag [delivery 1, delivery 2])
   \<and> delivery 1 \<in> set [delivery 1, delivery 2]
   \<and> delivery 2 \<in> set [delivery 1, delivery 2]
   \<and> filter is_settle
        (trace (worker obliging_broker zeroConsumeOptions accept_even
                  [delivery 1, delivery 2] start)) =
       [Channel (Nack 1 False True), Channel (Ack 2 False)]
   \<and> filter (settles 1)
        (trace (worker obliging_broker zeroConsumeOptions accept_even
                  [delivery 1, delivery 2] start)) =
       [Channel (Nack 1 False True)]
   \<and> filter (settles 2)
        (trace (worker obliging_broker zeroConsumeOptions accept_even
                  [delivery 1, delivery 2] start)) =
       [Channel (Ack 2 False)]"
proof -
  have 1: "\<not> ConsumerAutoAck zeroConsumeOptions"
    by (simp add: zeroConsumeOptions_def)
  have 2: "distinct (map DeliveryTag [delivery 1, delivery 2])"
    by (simp add: delivery_def)
  have 3: "delivery 1 \<in> set [delivery 1, delivery 2]"
    and 4: "delivery 2 \<in> set [delivery 1, delivery 2]"
    by simp_all
  from worker_settles_each_delivery_once [OF 1, of obliging_broker accept_even
      "[delivery 1, delivery 2]" start "delivery 1"]
    worker_settles_each_delivery_once [OF 1, of obliging_broker accept_even
      "[delivery 1, delivery 2]" start "delivery 2"]
    1 2 3 4
  show ?thesis
    by (simp add: delivery_def accept_even_def start_def)
qed

subsection \<open>C2: only the first cycle reaches the caller\<close>

text \<open>
  Claim C2. \<open>StartConsuming\<close> returns exactly what its first cycle returns, so it
  returns an error if and only if the first cycle fails; it starts the supervisory
  goroutine after a successful first cycle and not at all after a failed one. After a loss
  notification the supervisor runs the retry loop: when the first \<open>k\<close> cycles of that
  recovery fail and the next one succeeds, the loop returns the world of the successful
  cycle, in which each of the \<open>k\<close> failures has been logged, and the supervisor goes on
  to the next notification from that world. The supervisor has no error result, and the
  result of \<open>StartConsuming\<close> does not depend on the notifications.
\<close>

theorem StartConsuming_returns_first_cycle_error:
  "fst (StartConsuming br d h q ks fs s) =
     fst (startGoroutines br h q ks (effective_options d fs) s)
   \<and> trace (snd (StartConsuming br d h q ks fs s)) =
       trace (snd (startGoroutines br h q ks (effective_options d fs) s)) @
         (if fst (StartConsuming br d h q ks fs s) = None then [Go_supervisor] else [])
   \<and> count_list (trace (snd (StartConsuming br d h q ks fs s))) Go_supervisor =
       count_list (trace s) Go_supervisor +
         (if fst (StartConsuming br d h q ks fs s) = None then 1 else 0)
   \<and> (failures br h q ks opts k Second (notified err s1) = Some sk \<and>
        startGoroutines br h q ks opts (sleeping (Second * 2 ^ k) sk) = (None, s2) \<longrightarrow>
        startGoroutinesWithRetries br h q ks opts (notified err s1) = Some s2
        \<and> supervisor br h q ks opts (err # notes) s1 = supervisor br h q ks opts notes s2
        \<and> supervisor br h q ks opts [err] s1 = Some s2
        \<and> length (filter is_retry_log (trace s2)) =
            length (filter is_retry_log (trace s1)) + k)"
proof -
  have "startGoroutinesWithRetries br h q ks opts (notified err s1) = Some s2
        \<and> supervisor br h q ks opts (err # notes) s1 = supervisor br h q ks opts notes s2
        \<and> supervisor br h q ks opts [err] s1 = Some s2
        \<and> length (filter is_retry_log (trace s2)) =
            length (filter is_retry_log (trace s1)) + k"
    if f: "failures br h q ks opts k Second (notified err s1) = Some sk"
      and c: "startGoroutines br h q ks opts (sleeping (Second * 2 ^ k) sk) = (None, s2)"
  proof -
    have "filter is_retry_log (trace s2) =
        filter is_retry_log (trace (sleeping (Second * 2 ^ k) sk))"
      using startGoroutines_retry_logs [of br h q ks opts "sleeping (Second * 2 ^ k) sk"] c
      by simp
    with failures_retry_logs [OF f] have
      "length (filter is_retry_log (trace s2)) = length (filter is_retry_log (trace s1)) + k"
      by simp
    with supervisor_absorbs [OF f c] show ?thesis by simp
  qed
  then show ?thesis
    using startGoroutines_supervisors [of br h q ks "effective_options d fs" s]
    by (simp add: StartConsuming_eq)
qed

text \<open>
  On a closed channel \<open>StartConsuming\<close> returns the error of the queue declaration and
  starts no supervisor. On the broker with an outage it succeeds; after a notification the
  first two recovery cycles fail and the third succeeds, and the supervisor ends in the
  world of the third, with both failures logged.
\<close>

theorem StartConsuming_returns_first_cycle_error_witness:
  "StartConsuming outage_broker sample_defaults accept_all ''jobs'' [] [] start =
     (None, running)
   \<and> StartConsuming closed_broker sample_defaults accept_all ''jobs'' [] [] start =
       (Some (Amqp (Error 504 ''channel/connection is not open'')),
        \<lparr>bstate = 1,
         trace = [RLock, Channel (QueueDeclare ''jobs'' False False False False []),
                  RUnlock]\<rparr>)
   \<and> failures outage_broker accept_all ''jobs'' [] (effective_options sample_defaults [])
       2 Second (notified forced running) =
     Some \<lparr>bstate = 3,
       trace = good_cycle 1 @
         [Go_supervisor,
          Printf ''consume cancel/close handler triggered. err: %v'' [ArgError forced]] @
         failed_attempt 1000000000 @ failed_attempt 2000000000\<rparr>
   \<and> startGoroutines outage_broker accept_all ''jobs'' []
       (effective_options sample_defaults [])
       (sleeping (Second * 2 ^ 2)
          \<lparr>bstate = 3,
           trace = good_cycle 1 @
             [Go_supervisor,
              Printf ''consume cancel/close handler triggered. err: %v'' [ArgError forced]] @
             failed_attempt 1000000000 @ failed_attempt 2000000000\<rparr>) =
     (None,
      \<lparr>bstate = 4,
       trace = good_cycle 1 @
         [Go_supervisor,
          Printf ''consume cancel/close handler triggered. err: %v'' [ArgError forced]] @
         failed_attempt 1000000000 @ failed_attempt 2000000000 @
         [Printf ''waiting %s seconds to attempt to start consumer goroutines''
            [ArgDuration 4000000000],
          Sleep 4000000000] @ good_cycle 1\<rparr>)
   \<and> supervisor outage_broker accept_all ''jobs'' [] (effective_options sample_defaults [])
       [forced] running =
     Some \<lparr>bstate = 4,
       trace = good_cycle 1 @
         [Go_supervisor,
          Printf ''consume cancel/close handler triggered. err: %v'' [ArgError forced]] @
         failed_attempt 1000000000 @ failed_attempt 2000000000 @
         [Printf ''waiting %s seconds to attempt to start consumer goroutines''
            [ArgDuration 4000000000],
          Sleep 4000000000] @ good_cycle 1\<rparr>"
proof -
  let ?opts = "effective_options sample_defaults []"
  let ?w2 = "\<lparr>bstate = 3::nat,
       trace = good_cycle 1 @
         [Go_supervisor,
          Printf ''consume cancel/close handler triggered. err: %v'' [ArgError forced]] @
         failed_attempt 1000000000 @ failed_attempt 2000000000\<rparr>"
  let ?w3 = "\<lparr>bstate = 4::nat,
       trace = good_cycle 1 @
         [Go_supervisor,
          Printf ''consume cancel/close handler triggered. err: %v'' [ArgError forced]] @
         failed_attempt 1000000000 @ failed_attempt 2000000000 @
         [Printf ''waiting %s seconds to attempt to start consumer goroutines''
            [ArgDuration 4000000000],
          Sleep 4000000000] @ good_cycle 1\<rparr>"
  note eval = outage_broker_def running_def failed_attempt_def good_cycle_def Second_def
    sample_defs run_defs
  have a: "StartConsuming outage_broker sample_defaults accept_all ''jobs'' [] [] start =
      (None, running)"
    by (simp add: eval)
  have b: "StartConsuming closed_broker sample_defaults accept_all ''jobs'' [] [] start =
       (Some (Amqp (Error 504 ''channel/connection is not open'')),
        \<lparr>bstate = 1,
         trace = [RLock, Channel (QueueDeclare ''jobs'' False False False False []),
                  RUnlock]\<rparr>)"
    by (simp add: eval)
  have f: "failures outage_broker accept_all ''jobs'' [] ?opts 2 Second
      (notified forced running) = Some ?w2"
    by (simp add: numeral_2_eq_2 eval)
  have c: "startGoroutines outage_broker accept_all ''jobs'' [] ?opts
      (sleeping (Second * 2 ^ 2) ?w2) = (None, ?w3)"
    by (simp add: eval)
  from StartConsuming_returns_first_cycle_error [of outage_broker sample_defaults
      accept_all "''jobs''" "[]" "[]" start ?opts 2 forced running ?w2 ?w3] f c
  have s: "supervisor outage_broker accept_all ''jobs'' [] ?opts [forced] running = Some ?w3"
    by blast
  from a b f c s show ?thesis by blast
qed

subsection \<open>C3: the backoff of the retry loop\<close>




subsection \<open>C4: a descriptor without a name\<close>

text \<open>
  Claim C4 as stated fails when the queue declaration fails: with a descriptor without a
  name on a closed channel, the cycle and \<open>StartConsuming\<close> return the error of the
  queue declaration, not the configuration error.
\<close>

theorem empty_name_on_closed_channel:
  "BindingExchange (apply_options [with_exchange unnamed_exchange]) = Some unnamed_exchange
   \<and> Name unnamed_exchange = []
   \<and> fst (startGoroutines closed_broker accept_all ''jobs'' [''created'']
            (effective_options sample_defaults [with_exchange unnamed_exchange]) start) =
       Some (Amqp (Error 504 ''channel/connection is not open''))
   \<and> fst (StartConsuming closed_broker sample_defaults accept_all ''jobs'' [''created'']
            [with_exchange unnamed_exchange] start) =
       Some (Amqp (Error 504 ''channel/connection is not open''))
   \<and> fst (StartConsuming closed_broker sample_defaults accept_all ''jobs'' [''created'']
            [with_exchange unnamed_exchange] start) \<noteq>
       Some (Errorf ''binding to exchange but name not specified'')"
  by (simp add: sample_defs run_defs)

text \<open>
  Claim C4, amended. If the option functions configure a binding descriptor whose name
  is empty, the cycle always fails and \<open>StartConsuming\<close> returns what the cycle
  returns (so it starts no supervisor). The queue declaration comes first: if it succeeds,
  the error of the cycle and of \<open>StartConsuming\<close> is the configuration error; if it
  fails with \<open>e\<close>, the error of the cycle and of \<open>StartConsuming\<close> is \<open>e\<close>.
\<close>

theorem empty_exchange_name_fails:
  assumes "BindingExchange (apply_options fs) = Some ex" and "Name ex = []"
  shows "fst (startGoroutines br h q ks (effective_options d fs) s) \<noteq> None
     \<and> StartConsuming br d h q ks fs s =
         startGoroutines br h q ks (effective_options d fs) s
     \<and> (fst (br (bstate s) (queueDeclare_call q (effective_options d fs))) = None \<longrightarrow>
          fst (startGoroutines br h q ks (effective_options d fs) s) =
            Some (Errorf ''binding to exchange but name not specified'')
          \<and> fst (StartConsuming br d h q ks fs s) =
            Some (Errorf ''binding to exchange but name not specified''))
     \<and> (fst (br (bstate s) (queueDeclare_call q (effective_options d fs))) = Some e \<longrightarrow>
          fst (startGoroutines br h q ks (effective_options d fs) s) = Some (Amqp e)
          \<and> fst (StartConsuming br d h q ks fs s) = Some (Amqp e))"
proof -
  have b: "BindingExchange (effective_options d fs) = Some ex"
    using assms(1) by simp
  have c: "fst (startGoroutines br h q ks (effective_options d fs) s) =
      (case fst (br (bstate s) (queueDeclare_call q (effective_options d fs))) of
         Some e \<Rightarrow> Some (Amqp e)
       | None \<Rightarrow> Some (Errorf ''binding to exchange but name not specified''))"
    by (simp add: startGoroutines_empty_name [OF b assms(2)])
  then have f: "fst (startGoroutines br h q ks (effective_options d fs) s) \<noteq> None"
    by (simp split: option.splits)
  then have "StartConsuming br d h q ks fs s =
      startGoroutines br h q ks (effective_options d fs) s"
    by (auto simp: StartConsuming_eq)
  with c f show ?thesis by simp
qed

text \<open>
  An accepting broker: \<open>StartConsuming\<close> returns the configuration error. A closed
  channel: it returns the error of the queue declaration.
\<close>

theorem empty_exchange_name_fails_witness:
  "BindingExchange (apply_options [with_exchange unnamed_exchange]) = Some unnamed_exchange
   \<and> Name unnamed_exchange = []
   \<and> fst (obliging_broker (bstate start)
        (queueDeclare_call ''jobs''
           (effective_options sample_defaults [with_exchange unnamed_exchange]))) = None
   \<and> fst (StartConsuming obliging_broker sample_defaults accept_all ''jobs'' [''created'']
        [with_exchange unnamed_exchange] start) =
       Some (Errorf ''binding to exchange but name not specified'')
   \<and> fst (closed_broker (bstate start)
        (queueDeclare_call ''jobs''
           (effective_options sample_defaults [with_exchange unnamed_exchange]))) =
       Some (Error 504 ''channel/connection is not open'')
   \<and> fst (StartConsuming closed_broker sample_defaults accept_all ''jobs'' [''created'']
        [with_exchange unnamed_exchange] start) =
       Some (Amqp (Error 504 ''channel/connection is not open''))"
proof -
  have 1: "BindingExchange (apply_options [with_exchange unnamed_exchange]) =
      Some unnamed_exchange"
    by (simp add: sample_defs)
  have 2: "Name unnamed_exchange = []"
    by (simp add: sample_defs)
  have 3: "fst (obliging_broker (bstate start)
        (queueDeclare_call ''jobs''
           (effective_options sample_defaults [with_exchange unnamed_exchange]))) = None"
    by (simp add: obliging_broker_def)
  have 4: "fst (closed_broker (bstate start)
        (queueDeclare_call ''jobs''
           (effective_options sample_defaults [with_exchange unnamed_exchange]))) =
       Some (Error 504 ''channel/connection is not open'')"
    by (simp add: closed_broker_def)
  from empty_exchange_name_fails [OF 1 2, where br = obliging_broker and s = start
      and q = "''jobs''" and d = sample_defaults and h = accept_all
      and ks = "[''created'']"] 3
  have a: "fst (StartConsuming obliging_broker sample_defaults accept_all ''jobs''
        [''created''] [with_exchange unnamed_exchange] start) =
       Some (Errorf ''binding to exchange but name not specified'')"
    by blast
  from empty_exchange_name_fails [OF 1 2, where br = closed_broker and s = start
      and q = "''jobs''" and d = sample_defaults and h = accept_all
      and ks = "[''created'']" and e = "Error 504 ''channel/connection is not open''"] 4
  have b: "fst (StartConsuming closed_broker sample_defaults accept_all ''jobs''
        [''created''] [with_exchange unnamed_exchange] start) =
       Some (Amqp (Error 504 ''channel/connection is not open''))"
    by blast
  from 1 2 3 4 a b show ?thesis by blast
qed

subsection \<open>C5: the number of workers\<close>

text \<open>
  Claim C5. A successful \<open>StartConsuming\<close> starts exactly as many workers as the
  concurrency it runs with, which is the configured concurrency \<open>N\<close> when \<open>N \<ge> 1\<close> and
  the default concurrency otherwise, and is at least 1. The default is the result of
  \<open>getDefaultConsumeOptions\<close>, of which the specification says that it is at least 1.
\<close>

theorem StartConsuming_spawns_concurrency_workers:
  assumes "StartConsuming br d h q ks fs s = (None, s')" and "1 \<le> Concurrency d"
  shows "Concurrency (effective_options d fs) =
       (if Concurrency (apply_options fs) < 1 then Concurrency d
        else Concurrency (apply_options fs))
     \<and> 1 \<le> Concurrency (effective_options d fs)
     \<and> count_list (trace s') Go_worker =
         count_list (trace s) Go_worker + nat (Concurrency (effective_options d fs))"
proof -
  have c: "Concurrency (effective_options d fs) =
       (if Concurrency (apply_options fs) < 1 then Concurrency d
        else Concurrency (apply_options fs))"
    by (simp add: effective_options_def Let_def)
  with assms(2) have p: "1 \<le> Concurrency (effective_options d fs)"
    by simp
  from assms(1) have ok: "fst (startGoroutines br h q ks (effective_options d fs) s) = None"
    and s': "s' = emit Go_supervisor (snd (startGoroutines br h q ks (effective_options d fs) s))"
    by (auto simp: StartConsuming_eq split: if_splits)
  have "count_list (trace s') Go_worker =
      count_list (trace s) Go_worker + nat (Concurrency (effective_options d fs))"
    using startGoroutines_workers [of br h q ks "effective_options d fs" s] ok
    by (simp add: s')
  with c p show ?thesis by simp
qed

text \<open>Concurrency 3 gives three workers; concurrency -2 gives the default, one worker.\<close>

theorem StartConsuming_spawns_concurrency_workers_witness:
  "fst (StartConsuming obliging_broker sample_defaults accept_all ''jobs'' []
          [with_concurrency 3] start) = None
   \<and> 1 \<le> Concurrency sample_defaults
   \<and> count_list (trace (snd (StartConsuming obliging_broker sample_defaults accept_all
          ''jobs'' [] [with_concurrency 3] start))) Go_worker = 3
   \<and> fst (StartConsuming obliging_broker sample_defaults accept_all ''jobs'' []
          [with_concurrency (- 2)] start) = None
   \<and> count_list (trace (snd (StartConsuming obliging_broker sample_defaults accept_all
          ''jobs'' [] [with_concurrency (- 2)] start))) Go_worker = 1"
proof -
  let ?a = "StartConsuming obliging_broker sample_defaults accept_all ''jobs'' []
          [with_concurrency 3] start"
  let ?b = "StartConsuming obliging_broker sample_defaults accept_all ''jobs'' []
          [with_concurrency (- 2)] start"
  have d: "1 \<le> Concurrency sample_defaults"
    by (simp add: sample_defs)
  have fa: "fst ?a = None" and fb: "fst ?b = None"
    by (simp_all add: StartConsuming_eq sample_defs startGoroutines_def
        startGoroutines_body_def binding_block_def channel_def split: prod.splits)
  then have a: "?a = (None, snd ?a)" and b: "?b = (None, snd ?b)"
    by (metis prod.collapse)+
  from StartConsuming_spawns_concurrency_workers [OF a d]
    StartConsuming_spawns_concurrency_workers [OF b d] fa fb d
  show ?thesis
    by (simp add: sample_defs)
qed

subsection \<open>C6: one binding for each routing key\<close>

text \<open>
  Claim C6. With a binding descriptor whose name is not empty, a successful cycle does
  exactly this, in this order: lock, queue declaration, exchange declaration, then one
  \<open>QueueBind\<close> of the queue to the exchange for each routing key, in the order of the
  list, then Qos, Consume, the workers, the log line and the unlock.
\<close>

theorem one_bind_per_routing_key:
  assumes "BindingExchange opts = Some ex" and "Name ex \<noteq> []"
    and "startGoroutines br h q ks opts s = (None, s')"
  shows "trace s' = trace s @
       [RLock, Channel (queueDeclare_call q opts), Channel (exchangeDeclare_call ex)] @
       map (\<lambda>k. Channel (QueueBind q k (Name ex) (BindingNoWait opts)
                            (tableToAMQPTable (BindingArgs opts)))) ks @
       [Channel (qos_call opts), Channel (consume_call q opts)] @
       replicate (nat (Concurrency opts)) Go_worker @
       [Printf ''Processing messages on %v goroutines'' [ArgInt (Concurrency opts)], RUnlock]"
  using startGoroutines_ok_binding [OF assms(3) assms(1)] .

text \<open>Two routing keys, two workers, an accepting broker.\<close>

theorem one_bind_per_routing_key_witness:
  "BindingExchange (with_exchange events_exchange (with_concurrency 2 zeroConsumeOptions)) =
     Some events_exchange
   \<and> Name events_exchange \<noteq> []
   \<and> startGoroutines obliging_broker accept_all ''jobs'' [''created'', ''deleted'']
       (with_exchange events_exchange (with_concurrency 2 zeroConsumeOptions)) start =
     (None,
      \<lparr>bstate = 6,
       trace =
         [RLock,
          Channel (QueueDeclare ''jobs'' False False False False []),
          Channel (ExchangeDeclare ''events'' ''topic'' True False False False []),
          Channel (QueueBind ''jobs'' ''created'' ''events'' False []),
          Channel (QueueBind ''jobs'' ''deleted'' ''events'' False []),
          Channel (Qos 0 0 False),
          Channel (Consume ''jobs'' [] False False False False []),
          Go_worker, Go_worker,
          Printf ''Processing messages on %v goroutines'' [ArgInt 2],
          RUnlock]\<rparr>)"
proof -
  let ?opts = "with_exchange events_exchange (with_concurrency 2 zeroConsumeOptions)"
  let ?run = "startGoroutines obliging_broker accept_all ''jobs'' [''created'', ''deleted'']
       ?opts start"
  have 1: "BindingExchange ?opts = Some events_exchange"
    by (simp add: sample_defs)
  have 2: "Name events_exchange \<noteq> []"
    by (simp add: sample_defs)
  have f: "fst ?run = None" and b: "bstate (snd ?run) = 6"
    by (simp_all add: sample_defs run_defs spawn_loop_bstate)
  then have 3: "?run = (None, snd ?run)"
    by (metis prod.collapse)
  from one_bind_per_routing_key [OF 1 2 3] have
    "trace (snd ?run) =
         [RLock,
          Channel (QueueDeclare ''jobs'' False False False False []),
          Channel (ExchangeDeclare ''events'' ''topic'' True False False False []),
          Channel (QueueBind ''jobs'' ''created'' ''events'' False []),
          Channel (QueueBind ''jobs'' ''deleted'' ''events'' False []),
          Channel (Qos 0 0 False),
          Channel (Consume ''jobs'' [] False False False False []),
          Go_worker, Go_worker,
          Printf ''Processing messages on %v goroutines'' [ArgInt 2],
          RUnlock]"
    by (simp add: sample_defs numeral_2_eq_2)
  with b have "snd ?run = \<lparr>bstate = 6, trace =
         [RLock,
          Channel (QueueDeclare ''jobs'' False False False False []),
          Channel (ExchangeDeclare ''events'' ''topic'' True False False False []),
          Channel (QueueBind ''jobs'' ''created'' ''events'' False []),
          Channel (QueueBind ''jobs'' ''deleted'' ''events'' False []),
          Channel (Qos 0 0 False),
          Channel (Consume ''jobs'' [] False False False False []),
          Go_worker, Go_worker,
          Printf ''Processing messages on %v goroutines'' [ArgInt 2],
          RUnlock]\<rparr>"
    by (cases "snd ?run") simp
  with 1 2 3 show ?thesis by simp
qed

subsection \<open>C7: auto-ack\<close>

text \<open>
  Claim C7. With auto-ack on, the worker invokes the handler once for each delivery, in
  order, and does nothing else until the stream closes: it makes no call on the channel
  (the broker state is unchanged and the trace holds no Ack or Nack), and the run is the
  same for every other handler \<open>h'\<close>, whatever the handlers return.
\<close>

theorem worker_auto_ack:
  assumes "ConsumerAutoAck opts"
  shows "worker br opts h msgs s =
     s\<lparr>trace := trace s @ map Handler msgs @ [Printf ''rabbit consumer goroutine closed'' []]\<rparr>
   \<and> worker br opts h msgs s = worker br opts h' msgs s"
  using assms by (simp add: worker_def worker_loop_auto_ack emit_def)

text \<open>Two deliveries on a closed channel with auto-ack on: two invocations, no call.\<close>

theorem worker_auto_ack_witness:
  "ConsumerAutoAck (with_auto_ack zeroConsumeOptions)
   \<and> worker closed_broker (with_auto_ack zeroConsumeOptions) accept_even
        [delivery 1, delivery 2] start =
       \<lparr>bstate = 0,
        trace = [Handler (delivery 1), Handler (delivery 2),
                 Printf ''rabbit consumer goroutine closed'' []]\<rparr>
   \<and> worker closed_broker (with_auto_ack zeroConsumeOptions) accept_even
        [delivery 1, delivery 2] start =
     worker closed_broker (with_auto_ack zeroConsumeOptions) accept_all
        [delivery 1, delivery 2] start"
proof -
  have 1: "ConsumerAutoAck (with_auto_ack zeroConsumeOptions)"
    by (simp add: with_auto_ack_def)
  note w = worker_auto_ack [OF 1, of closed_broker accept_even "[delivery 1, delivery 2]"
      start accept_all]
  from w have a: "worker closed_broker (with_auto_ack zeroConsumeOptions) accept_even
        [delivery 1, delivery 2] start =
       \<lparr>bstate = 0,
        trace = [Handler (delivery 1), Handler (delivery 2),
                 Printf ''rabbit consumer goroutine closed'' []]\<rparr>"
    by (simp add: start_def)
  from w have b: "worker closed_broker (with_auto_ack zeroConsumeOptions) accept_even
        [delivery 1, delivery 2] start =
     worker closed_broker (with_auto_ack zeroConsumeOptions) accept_all
        [delivery 1, delivery 2] start"
    by (rule conjunct2)
  from 1 a b show ?thesis by blast
qed

subsection \<open>C8: failed Ack and Nack\<close>



subsection \<open>C9: routing keys without a descriptor\<close>

text \<open>
  Claim C9. Without a binding descriptor the routing keys are ignored: \<open>StartConsuming\<close>
  and the cycle do the same with any list of keys as with the empty list, and the run of
  \<open>StartConsuming\<close> adds no exchange declaration and no queue binding to the trace.
\<close>

theorem routing_keys_ignored_without_binding:
  assumes "BindingExchange (apply_options fs) = None"
  shows "StartConsuming br d h q ks fs s = StartConsuming br d h q [] fs s
     \<and> startGoroutines br h q ks (effective_options d fs) s =
         startGoroutines br h q [] (effective_options d fs) s
     \<and> filter is_binding_call (trace (snd (StartConsuming br d h q ks fs s))) =
         filter is_binding_call (trace s)"
proof -
  have b: "BindingExchange (effective_options d fs) = None"
    using assms by simp
  have e: "startGoroutines br h q ks (effective_options d fs) s =
         startGoroutines br h q [] (effective_options d fs) s"
    using b by (rule startGoroutines_no_binding)
  then have "StartConsuming br d h q ks fs s = StartConsuming br d h q [] fs s"
    by (simp add: StartConsuming_def)
  moreover have "filter is_binding_call (trace (snd (StartConsuming br d h q ks fs s))) =
         filter is_binding_call (trace s)"
    using startGoroutines_binding_calls [OF b, of br h q ks s]
    by (simp add: StartConsuming_eq)
  ultimately show ?thesis using e by simp
qed

text \<open>Two routing keys and no descriptor: the trace has no binding call.\<close>

theorem routing_keys_ignored_without_binding_witness:
  "BindingExchange (apply_options [with_concurrency 1]) = None
   \<and> StartConsuming obliging_broker sample_defaults accept_all ''jobs''
       [''created'', ''deleted''] [with_concurrency 1] start =
     (None,
      \<lparr>bstate = 3,
       trace =
         [RLock,
          Channel (QueueDeclare ''jobs'' False False False False []),
          Channel (Qos 0 0 False),
          Channel (Consume ''jobs'' [] False False False False []),
          Go_worker,
          Printf ''Processing messages on %v goroutines'' [ArgInt 1],
          RUnlock, Go_supervisor]\<rparr>)"
proof -
  have 1: "BindingExchange (apply_options [with_concurrency 1]) = None"
    by (simp add: sample_defs)
  have "StartConsuming obliging_broker sample_defaults accept_all ''jobs'' []
      [with_concurrency 1] start =
     (None,
      \<lparr>bstate = 3,
       trace =
         [RLock,
          Channel (QueueDeclare ''jobs'' False False False False []),
          Channel (Qos 0 0 False),
          Channel (Consume ''jobs'' [] False False False False []),
          Go_worker,
          Printf ''Processing messages on %v goroutines'' [ArgInt 1],
          RUnlock, Go_supervisor]\<rparr>)"
    by (simp add: sample_defs run_defs)
  with routing_keys_ignored_without_binding [OF 1, of obliging_broker sample_defaults
      accept_all "''jobs''" "[''created'', ''deleted'']" start] 1
  show ?thesis by simp
qed

subsection \<open>C10: the queue is declared before the name is checked\<close>

text \<open>
  Claim C10. The cycle is not atomic on error. With a binding descriptor whose name is
  empty, the cycle makes exactly one call, the queue declaration, and it makes it before
  it looks at the name: the trace of the cycle is the lock, the queue declaration and the
  unlock, the broker is left in the state the declaration put it in, and the result is
  the configuration error exactly when the declaration succeeded (the declaration's own
  error otherwise).
\<close>

theorem queue_declared_before_name_check:
  assumes "BindingExchange opts = Some ex" and "Name ex = []"
  shows "trace (snd (startGoroutines br h q ks opts s)) =
       trace s @ [RLock, Channel (queueDeclare_call q opts), RUnlock]
     \<and> bstate (snd (startGoroutines br h q ks opts s)) =
         snd (br (bstate s) (queueDeclare_call q opts))
     \<and> fst (startGoroutines br h q ks opts s) =
         (case fst (br (bstate s) (queueDeclare_call q opts)) of
            Some e \<Rightarrow> Some (Amqp e)
          | None \<Rightarrow> Some (Errorf ''binding to exchange but name not specified''))"
  by (simp add: startGoroutines_empty_name [OF assms])

text \<open>
  An accepting broker and a descriptor without a name: the configuration error comes
  back, and the broker has counted one call.
\<close>

theorem queue_declared_before_name_check_witness:
  "BindingExchange (with_exchange unnamed_exchange zeroConsumeOptions) = Some unnamed_exchange
   \<and> Name unnamed_exchange = []
   \<and> startGoroutines obliging_broker accept_all ''jobs'' [''created'']
       (with_exchange unnamed_exchange zeroConsumeOptions) start =
     (Some (Errorf ''binding to exchange but name not specified''),
      \<lparr>bstate = 1,
       trace = [RLock, Channel (QueueDeclare ''jobs'' False False False False []), RUnlock]\<rparr>)"
proof -
  have 1: "BindingExchange (with_exchange unnamed_exchange zeroConsumeOptions) =
      Some unnamed_exchange"
    by (simp add: sample_defs)
  have 2: "Name unnamed_exchange = []"
    by (simp add: sample_defs)
  from queue_declared_before_name_check [OF 1 2, of obliging_broker accept_all "''jobs''"
      "[''created'']" start]
  show ?thesis
    using 1 2
    by (cases "startGoroutines obliging_broker accept_all ''jobs'' [''created'']
       (with_exchange unnamed_exchange zeroConsumeOptions) start")
       (simp add: sample_defs)
qed

end
